theory Spec2Isabelle
  imports Main
begin

section \<open>Text\<close>

text \<open>
  A Python \<open>str\<close> is a list of Unicode code points, each an integer. \<open>u\<close> reads an ASCII literal as
  one. The tables of this section are Python's: \<open>py_isspace\<close> is what \<open>str.strip\<close>
  removes and what \<open>\s\<close> matches, on every code point; \<open>low_isalnum\<close> is
  \<open>str.isalnum\<close> on the code points below \<open>0x180\<close>; \<open>lower_char\<close> is the lower case
  of \<open>str.lower\<close> on the code points below \<open>0x100\<close>.
\<close>

type_synonym str = "int list"

definition u :: "string \<Rightarrow> str" where
  "u s = map of_char s"

definition ascii :: "str \<Rightarrow> bool" where
  "ascii s = list_all (\<lambda>c. c < 128) s"

definition py_isspace :: "int \<Rightarrow> bool" where
  "py_isspace n =
     ((0x09 \<le> n \<and> n \<le> 0x0D) \<or> (0x1C \<le> n \<and> n \<le> 0x20) \<or> n = 0x85 \<or> n = 0xA0 \<or>
      n = 0x1680 \<or> (0x2000 \<le> n \<and> n \<le> 0x200A) \<or> n = 0x2028 \<or> n = 0x2029 \<or>
      n = 0x202F \<or> n = 0x205F \<or> n = 0x3000)"

definition low_isalnum :: "int \<Rightarrow> bool" where
  "low_isalnum n =
     ((48 \<le> n \<and> n \<le> 57) \<or> (65 \<le> n \<and> n \<le> 90) \<or> (97 \<le> n \<and> n \<le> 122) \<or>
      n = 170 \<or> n = 178 \<or> n = 179 \<or> n = 181 \<or> n = 185 \<or> n = 186 \<or>
      (188 \<le> n \<and> n \<le> 190) \<or> (192 \<le> n \<and> n \<le> 214) \<or> (216 \<le> n \<and> n \<le> 246) \<or>
      (248 \<le> n \<and> n < 0x180))"

definition lower_char :: "int \<Rightarrow> int" where
  "lower_char n =
     (if (65 \<le> n \<and> n \<le> 90) \<or> (192 \<le> n \<and> n \<le> 214) \<or> (216 \<le> n \<and> n \<le> 222)
      then n + 32 else n)"

definition ascii_lower :: "int \<Rightarrow> int" where
  "ascii_lower n = (if 65 \<le> n \<and> n \<le> 90 then n + 32 else n)"

text \<open>\<open>s.strip()\<close>\<close>

definition strip :: "str \<Rightarrow> str" where
  "strip s = rev (dropWhile py_isspace (rev (dropWhile py_isspace s)))"

text \<open>\<open>s.startswith(p)\<close>, and \<open>word in text\<close> on two strings: \<open>word\<close> starts at some
  position of \<open>text\<close>.\<close>

fun startswith :: "str \<Rightarrow> str \<Rightarrow> bool" where
  "startswith s [] = True"
| "startswith [] (p # ps) = False"
| "startswith (c # cs) (p # ps) = (c = p \<and> startswith cs ps)"

fun str_in :: "str \<Rightarrow> str \<Rightarrow> bool" where
  "str_in word [] = startswith [] word"
| "str_in word (c # cs) = (startswith (c # cs) word \<or> str_in word cs)"

text \<open>\<open>str(n)\<close> for an integer.\<close>

fun str_nat :: "nat \<Rightarrow> str" where
  "str_nat n = (if n < 10 then [48 + int n] else str_nat (n div 10) @ [48 + int (n mod 10)])"

declare str_nat.simps [simp del]

definition str_int :: "int \<Rightarrow> str" where
  "str_int i = (if i < 0 then 45 # str_nat (nat (- i)) else str_nat (nat i))"

section \<open>Values, exceptions and the outside world\<close>

text \<open>
  What \<open>json.loads\<close> returns: \<open>None\<close>, a bool, an int, a float, a \<open>str\<close>, a list or a
  dict with \<open>str\<close> keys. A float is kept as the number that its 64 bits write; no
  operation of the program looks into it.
\<close>

datatype json =
    JNull
  | JBool bool
  | JInt int
  | JFloat nat
  | JStr str
  | JList "json list"
  | JDict "(str \<times> json) list"

datatype exn =
    RequestException
  | FeedException
  | JSONDecodeError
  | KeyError
  | IndexError
  | TypeError
  | AttributeError
  | UnicodeEncodeError

text \<open>A raw feed entry is a dictionary; \<open>entry.get(key, default)\<close> reads it.\<close>

type_synonym entry = "str \<rightharpoonup> str"

definition get :: "entry \<Rightarrow> str \<Rightarrow> str \<Rightarrow> str" where
  "get entry key dflt = (case entry key of None \<Rightarrow> dflt | Some v \<Rightarrow> v)"

record article =
  source :: str
  title :: str
  link :: str
  published :: str
  summary :: str

text \<open>
  The response of an HTTP call: its status, its body text, and what \<open>response.json()\<close>
  returns or raises.
\<close>

record response =
  status_code :: int
  body_text :: str
  body_json :: "exn + json"

record embed_field =
  field_name :: str
  field_value :: json
  field_inline :: bool

record embed =
  embed_title :: str
  embed_description :: "str option"
  embed_url :: "str option"
  embed_color :: int
  embed_timestamp :: "str option"
  embed_fields :: "embed_field list"
  embed_footer :: "json option"

record payload =
  username :: str
  avatar_url :: str
  embeds :: "embed list"

datatype request =
    Api_request str
  | Webhook_request str payload

text \<open>
  The libraries, the network and the console are parameters of the model:
  \<^item> the feed that \<open>feedparser.parse\<close> returns for a URL, or the exception it raises;
  \<^item> the outcome of the \<open>n\<close>-th \<open>requests.post\<close> of the run;
  \<^item> \<open>json.loads\<close>;
  \<^item> the text \<open>str(e)\<close> of an exception, which is taken to be ASCII;
  \<^item> \<open>str.capitalize\<close>;
  \<^item> the text of \<open>datetime.utcnow().isoformat()\<close>;
  \<^item> \<open>str.isalnum\<close> on the code points from \<open>0x180\<close> on;
  \<^item> the lower case that \<open>str.lower\<close> gives a code point from \<open>0x100\<close> on, standing
    between the characters before it and the characters after it;
  \<^item> the code points beyond ASCII that the encoding of standard output can write.
\<close>

record lib =
  feedparser_parse :: "str \<Rightarrow> exn + entry list"
  requests_post :: "nat \<Rightarrow> request \<Rightarrow> exn + response"
  json_loads :: "str \<Rightarrow> exn + json"
  exn_str :: "exn \<Rightarrow> String.literal"
  capitalize :: "str \<Rightarrow> str"
  utcnow_isoformat :: str
  ucd_isalnum :: "int \<Rightarrow> bool"
  ucd_lower :: "str \<Rightarrow> int \<Rightarrow> str \<Rightarrow> str"
  stdout_encodes :: "int \<Rightarrow> bool"

text \<open>\<open>str(e)\<close>\<close>

definition exn_text :: "lib \<Rightarrow> exn \<Rightarrow> str" where
  "exn_text l e = u (String.explode (exn_str l e))"

text \<open>What \<open>\w\<close> matches in a \<open>str\<close> pattern: the alphanumeric characters and the
  underscore.\<close>

definition is_word_char :: "lib \<Rightarrow> int \<Rightarrow> bool" where
  "is_word_char l n = (if n < 0x180 then low_isalnum n \<or> n = 95 else ucd_isalnum l n)"

text \<open>\<open>s.lower()\<close>, character by character; \<open>lower_from l before s\<close> is the lower case
  of \<open>s\<close> where \<open>before\<close> stands in front of it.\<close>

fun lower_from :: "lib \<Rightarrow> str \<Rightarrow> str \<Rightarrow> str" where
  "lower_from l before [] = []"
| "lower_from l before (c # cs) =
     (if c < 0x100 then [lower_char c] else ucd_lower l before c cs)
     @ lower_from l (before @ [c]) cs"

definition lower :: "lib \<Rightarrow> str \<Rightarrow> str" where
  "lower l s = lower_from l [] s"

text \<open>
  The state that the program changes: the lines printed so far and the number of HTTP
  posts issued so far. \<open>print\<close> writes a line when the encoding of standard output can
  write each of its characters, which every encoding can for ASCII; it raises
  \<open>UnicodeEncodeError\<close> otherwise and writes nothing.
\<close>

record world =
  console :: "str list"
  posts :: nat

definition encodable :: "lib \<Rightarrow> int \<Rightarrow> bool" where
  "encodable l n = (n < 128 \<or> stdout_encodes l n)"

definition print :: "lib \<Rightarrow> str \<Rightarrow> world \<Rightarrow> exn + world" where
  "print l line w =
     (if list_all (encodable l) line then Inr (w\<lparr>console := console w @ [line]\<rparr>)
      else Inl UnicodeEncodeError)"

definition post :: "lib \<Rightarrow> request \<Rightarrow> world \<Rightarrow> (exn + response) \<times> world" where
  "post l rq w = (requests_post l (posts w) rq, w\<lparr>posts := Suc (posts w)\<rparr>)"

section \<open>The regular expression of the Matcher\<close>

text \<open>
  \<open>re.search(r'\bIndia\b', title, re.IGNORECASE)\<close>. The pattern is a sequence of ASCII
  literals and word boundaries. Under \<open>re.IGNORECASE\<close> an ASCII literal matches itself
  and its other case, and further \<open>i\<close> matches \<open>U+0130\<close> and \<open>U+0131\<close>, \<open>s\<close> matches
  \<open>U+017F\<close> and \<open>k\<close> matches \<open>U+212A\<close>. \<open>\b\<close> matches between two positions of which
  exactly one holds a word character, the positions before the start and after the end
  holding none. \<open>match_here\<close> matches the pattern at one position, given the character
  before it; \<open>re_search\<close> tries every position from the left.
\<close>

datatype atom = Bnd | Lit int

definition lit_matches_ci :: "int \<Rightarrow> int \<Rightarrow> bool" where
  "lit_matches_ci lit c =
     (ascii_lower c = ascii_lower lit \<or>
      (ascii_lower lit = 105 \<and> (c = 0x130 \<or> c = 0x131)) \<or>
      (ascii_lower lit = 115 \<and> c = 0x17F) \<or>
      (ascii_lower lit = 107 \<and> c = 0x212A))"

definition word_before :: "lib \<Rightarrow> int option \<Rightarrow> bool" where
  "word_before l p = (case p of None \<Rightarrow> False | Some c \<Rightarrow> is_word_char l c)"

definition word_after :: "lib \<Rightarrow> str \<Rightarrow> bool" where
  "word_after l s = (case s of [] \<Rightarrow> False | c # cs \<Rightarrow> is_word_char l c)"

fun match_here :: "lib \<Rightarrow> atom list \<Rightarrow> int option \<Rightarrow> str \<Rightarrow> bool" where
  "match_here l [] p s = True"
| "match_here l (Bnd # r) p s = (word_before l p \<noteq> word_after l s \<and> match_here l r p s)"
| "match_here l (Lit k # r) p [] = False"
| "match_here l (Lit k # r) p (c # cs) = (lit_matches_ci k c \<and> match_here l r (Some c) cs)"

fun search_from :: "lib \<Rightarrow> atom list \<Rightarrow> int option \<Rightarrow> str \<Rightarrow> bool" where
  "search_from l r p [] = match_here l r p []"
| "search_from l r p (c # cs) = (match_here l r p (c # cs) \<or> search_from l r (Some c) cs)"

definition re_search :: "lib \<Rightarrow> atom list \<Rightarrow> str \<Rightarrow> bool" where
  "re_search l r s = search_from l r None s"

definition keyword_pattern :: "atom list" where
  "keyword_pattern = Bnd # map Lit (u ''India'') @ [Bnd]"

section \<open>Fetcher and Matcher: \<open>fetch_articles\<close>\<close>

definition news_sources :: "(str \<times> str) list" where
  "news_sources =
    [(u ''The Guardian'', u ''https://www.theguardian.com/world/rss''),
     (u ''New York Times'', u ''https://rss.nytimes.com/services/xml/rss/nyt/World.xml''),
     (u ''Dawn (Pakistan)'', u ''https://www.dawn.com/feeds/home'')]"

definition make_article :: "str \<Rightarrow> entry \<Rightarrow> article" where
  "make_article source_name entry =
     \<lparr>source = source_name,
      title = get entry (u ''title'') [],
      link = get entry (u ''link'') [],
      published = get entry (u ''published'') (u ''Date not available''),
      summary = take 300 (get entry (u ''summary'') [])\<rparr>"

text \<open>The line printed for a kept entry; its third character is the check mark.\<close>

definition found_line :: "str \<Rightarrow> str" where
  "found_line t = u ''  '' @ [0x2713] @ u '' Found: '' @ take 60 t @ u ''...''"

text \<open>
  The loop over the entries of one feed. It runs inside the \<open>try\<close> of its source: when
  the \<open>print\<close> after an \<open>append\<close> raises, the loop is left with the exception, the
  articles appended so far staying in the list.
\<close>

fun scan_entries ::
  "lib \<Rightarrow> str \<Rightarrow> entry list \<Rightarrow> article list \<Rightarrow> world \<Rightarrow> (exn + unit) \<times> article list \<times> world"
where
  "scan_entries l source_name [] all_articles w = (Inr (), all_articles, w)"
| "scan_entries l source_name (entry # entries) all_articles w =
     (if re_search l keyword_pattern (get entry (u ''title'') [])
      then (case print l (found_line (get entry (u ''title'') [])) w of
              Inl e \<Rightarrow> (Inl e, all_articles @ [make_article source_name entry], w)
            | Inr w' \<Rightarrow>
                scan_entries l source_name entries
                  (all_articles @ [make_article source_name entry]) w')
      else scan_entries l source_name entries all_articles w)"

text \<open>The \<open>try\<close> block of one source.\<close>

definition try_source ::
  "lib \<Rightarrow> str \<Rightarrow> str \<Rightarrow> article list \<Rightarrow> world \<Rightarrow> (exn + unit) \<times> article list \<times> world"
where
  "try_source l source_name rss_url all_articles w =
     (case print l (u ''Fetching from '' @ source_name @ u ''...'') w of
        Inl e \<Rightarrow> (Inl e, all_articles, w)
      | Inr w' \<Rightarrow>
          (case feedparser_parse l rss_url of
             Inl e \<Rightarrow> (Inl e, all_articles, w')
           | Inr entries \<Rightarrow> scan_entries l source_name entries all_articles w'))"

text \<open>The loop over the sources: an exception of the block is caught and printed, and
  the loop goes on with the next source; an exception of that \<open>print\<close> leaves the
  function.\<close>

fun scan_sources ::
  "lib \<Rightarrow> (str \<times> str) list \<Rightarrow> article list \<Rightarrow> world \<Rightarrow> (exn + unit) \<times> article list \<times> world"
where
  "scan_sources l [] all_articles w = (Inr (), all_articles, w)"
| "scan_sources l ((source_name, rss_url) # rest) all_articles w =
     (case try_source l source_name rss_url all_articles w of
        (Inr ok, found, w') \<Rightarrow> scan_sources l rest found w'
      | (Inl e, found, w') \<Rightarrow>
          (case print l (u ''Error fetching from '' @ source_name @ u '': '' @ exn_text l e) w' of
             Inl e' \<Rightarrow> (Inl e', found, w')
           | Inr w'' \<Rightarrow> scan_sources l rest found w''))"

definition fetch_articles :: "lib \<Rightarrow> world \<Rightarrow> (exn + article list) \<times> world" where
  "fetch_articles l w =
     (case scan_sources l news_sources [] w of
        (Inr ok, found, w') \<Rightarrow> (Inr found, w')
      | (Inl e, found, w') \<Rightarrow> (Inl e, w'))"

section \<open>Classifier, fallback path: \<open>fallback_analysis\<close>\<close>

definition positive_words :: "str list" where
  "positive_words =
     map u [''success'', ''growth'', ''win'', ''boost'', ''improve'', ''achievement'',
            ''celebrates'']"

definition negative_words :: "str list" where
  "negative_words =
     map u [''crisis'', ''conflict'', ''concern'', ''attack'', ''threat'', ''decline'', ''warns'']"

text \<open>\<open>text = title_lower + " " + summary_lower\<close>\<close>

definition analysis_text :: "lib \<Rightarrow> article \<Rightarrow> str" where
  "analysis_text l a = lower l (title a) @ u '' '' @ lower l (summary a)"

text \<open>\<open>sum(1 for word in words if word in text)\<close>\<close>

definition count_words :: "str list \<Rightarrow> str \<Rightarrow> nat" where
  "count_words ws t = sum_list (map (\<lambda>word. 1) (filter (\<lambda>word. str_in word t) ws))"

definition fallback_sentiment :: "str \<Rightarrow> str" where
  "fallback_sentiment t =
     (let pos_count = count_words positive_words t;
          neg_count = count_words negative_words t
      in if pos_count > neg_count then u ''positive''
         else if neg_count > pos_count then u ''negative''
         else u ''neutral'')"

text \<open>\<open>any(word in text for word in words)\<close>\<close>

definition any_in :: "str list \<Rightarrow> str \<Rightarrow> bool" where
  "any_in ws t = list_ex (\<lambda>word. str_in word t) ws"

definition fallback_category :: "str \<Rightarrow> str" where
  "fallback_category t =
     (if any_in (map u [''election'', ''government'', ''minister'', ''parliament'', ''party'']) t
        then u ''Politics''
      else if any_in (map u [''economy'', ''trade'', ''gdp'', ''market'', ''business'']) t
        then u ''Economy''
      else if any_in (map u [''cricket'', ''sport'', ''match'', ''olympic'']) t
        then u ''Sports''
      else if any_in (map u [''tech'', ''digital'', ''ai'', ''startup'']) t
        then u ''Technology''
      else if any_in (map u [''military'', ''defense'', ''army'', ''border'']) t
        then u ''Defense''
      else u ''Other'')"

definition fallback_analysis :: "lib \<Rightarrow> article \<Rightarrow> json" where
  "fallback_analysis l a =
     JDict [(u ''sentiment'', JStr (fallback_sentiment (analysis_text l a))),
            (u ''category'', JStr (fallback_category (analysis_text l a))),
            (u ''reasoning'', JStr (u ''Keyword-based analysis''))]"

section \<open>Classifier, remote path: \<open>analyze_with_ai\<close>\<close>

definition nl :: str where
  "nl = [0x0A]"

definition prompt :: "article \<Rightarrow> str" where
  \<open>prompt a =
     u ''Analyze this news article title and summary about India:'' @ nl @ nl @
     u ''Title: '' @ title a @ nl @
     u ''Summary: '' @ summary a @ nl @ nl @
     u ''Provide analysis in this EXACT JSON format (no other text):'' @ nl @
     u ''{'' @ nl @
     u ''    "sentiment": "positive" or "negative" or "neutral",'' @ nl @
     u ''    "category": "Politics" or "Economy" or "Sports" or "Technology" or "Defense" or "Diplomacy" or "Other",'' @ nl @
     u ''    "reasoning": "brief 1 sentence explanation"'' @ nl @
     u ''}''\<close>

text \<open>
  \<open>v[key]\<close> with a \<open>str\<close> key: a dict looks the key up, every other value raises
  \<open>TypeError\<close>.
\<close>

fun getitem_key :: "json \<Rightarrow> str \<Rightarrow> exn + json" where
  "getitem_key (JDict d) key = (case map_of d key of None \<Rightarrow> Inl KeyError | Some v \<Rightarrow> Inr v)"
| "getitem_key v key = Inl TypeError"

text \<open>
  \<open>v[0]\<close>: the first element of a list, the first character of a \<open>str\<close>; a dict has
  \<open>str\<close> keys only, so the key \<open>0\<close> is missing.
\<close>

fun getitem_0 :: "json \<Rightarrow> exn + json" where
  "getitem_0 (JList []) = Inl IndexError"
| "getitem_0 (JList (x # xs)) = Inr x"
| "getitem_0 (JStr []) = Inl IndexError"
| "getitem_0 (JStr (c # cs)) = Inr (JStr [c])"
| "getitem_0 (JDict d) = Inl KeyError"
| "getitem_0 v = Inl TypeError"

text \<open>\<open>v.strip()\<close>: only a \<open>str\<close> has the method.\<close>

fun value_strip :: "json \<Rightarrow> exn + str" where
  "value_strip (JStr s) = Inr (strip s)"
| "value_strip v = Inl AttributeError"

text \<open>
  \<open>re.sub(r'```json\s*|\s*```', '', content)\<close>: from the left, at each position the first
  alternative is tried before the second, a match is removed and the scan goes on after
  it. \<open>\s*\<close> is greedy, and giving back white space cannot help the second alternative,
  since the three backquotes would then have to start at a white space character.
\<close>

function sub_fences :: "str \<Rightarrow> str" where
  "sub_fences [] = []"
| "sub_fences (c # cs) =
     (if startswith (c # cs) (u ''```json'')
        then sub_fences (dropWhile py_isspace (drop 7 (c # cs)))
      else if startswith (dropWhile py_isspace (c # cs)) (u ''```'')
        then sub_fences (drop 3 (dropWhile py_isspace (c # cs)))
      else c # sub_fences cs)"
  by pat_completeness auto
termination
proof (relation "measure length")
  show "wf (measure length)" by simp
next
  fix c :: int and cs :: str
  have "length (dropWhile py_isspace (drop 7 (c # cs))) \<le> length (drop 7 (c # cs))"
    by (rule length_dropWhile_le)
  then show "(dropWhile py_isspace (drop 7 (c # cs)), c # cs) \<in> measure length"
    by simp
next
  fix c :: int and cs :: str
  have "length (dropWhile py_isspace (c # cs)) \<le> length (c # cs)"
    by (rule length_dropWhile_le)
  then show "(drop 3 (dropWhile py_isspace (c # cs)), c # cs) \<in> measure length"
    by simp
next
  fix c :: int and cs :: str
  show "(cs, c # cs) \<in> measure length" by simp
qed

declare sub_fences.simps [simp del]

text \<open>The statements of the \<open>try\<close> block after a response with status 200.\<close>

definition parse_reply :: "lib \<Rightarrow> response \<Rightarrow> exn + json" where
  "parse_reply l r =
     (case body_json r of Inl e \<Rightarrow> Inl e | Inr data \<Rightarrow>
     (case getitem_key data (u ''content'') of Inl e \<Rightarrow> Inl e | Inr blocks \<Rightarrow>
     (case getitem_0 blocks of Inl e \<Rightarrow> Inl e | Inr block \<Rightarrow>
     (case getitem_key block (u ''text'') of Inl e \<Rightarrow> Inl e | Inr t \<Rightarrow>
     (case value_strip t of Inl e \<Rightarrow> Inl e | Inr content \<Rightarrow>
        json_loads l (strip (sub_fences content)))))))"

text \<open>The \<open>try\<close> block: what it returns, or the exception that leaves it.\<close>

definition try_analyze :: "lib \<Rightarrow> article \<Rightarrow> world \<Rightarrow> (exn + json) \<times> world" where
  "try_analyze l a w =
     (case post l (Api_request (prompt a)) w of
        (Inl e, w') \<Rightarrow> (Inl e, w')
      | (Inr r, w') \<Rightarrow>
          if status_code r = 200 then (parse_reply l r, w')
          else (case print l (u ''API error: '' @ str_int (status_code r)) w' of
                  Inl e \<Rightarrow> (Inl e, w')
                | Inr w'' \<Rightarrow> (Inr (fallback_analysis l a), w'')))"

text \<open>The whole method: \<open>except Exception\<close> catches whatever leaves the block; an
  exception of the handler's own \<open>print\<close> would leave the method.\<close>

definition analyze_with_ai :: "lib \<Rightarrow> article \<Rightarrow> world \<Rightarrow> (exn + json) \<times> world" where
  "analyze_with_ai l a w =
     (case try_analyze l a w of
        (Inr analysis, w') \<Rightarrow> (Inr analysis, w')
      | (Inl e, w') \<Rightarrow>
          (case print l (u ''AI analysis error: '' @ exn_text l e) w' of
             Inl e' \<Rightarrow> (Inl e', w')
           | Inr w'' \<Rightarrow> (Inr (fallback_analysis l a), w'')))"

section \<open>Renderer: \<open>get_emoji\<close> and \<open>format_discord_message\<close>\<close>

text \<open>
  \<open>d.get(key, default)\<close> on a dictionary with \<open>str\<close> keys: a list or a dict cannot be
  hashed, so looking it up raises \<open>TypeError\<close>; every other value that is not a \<open>str\<close>
  is missing.
\<close>

fun dict_get :: "(str \<times> 'a) list \<Rightarrow> json \<Rightarrow> 'a \<Rightarrow> exn + 'a" where
  "dict_get d (JStr k) dflt = Inr (case map_of d k of None \<Rightarrow> dflt | Some v \<Rightarrow> v)"
| "dict_get d (JList xs) dflt = Inl TypeError"
| "dict_get d (JDict kvs) dflt = Inl TypeError"
| "dict_get d v dflt = Inr dflt"

definition sentiment_emoji :: "(str \<times> str) list" where
  "sentiment_emoji =
     [(u ''positive'', [0x1F7E2]), (u ''negative'', [0x1F534]), (u ''neutral'', [0x1F7E1])]"

definition category_emoji :: "(str \<times> str) list" where
  "category_emoji =
     [(u ''Politics'', [0x1F3DB, 0xFE0F]), (u ''Economy'', [0x1F4B0]), (u ''Sports'', [0x26BD]),
      (u ''Technology'', [0x1F4BB]), (u ''Defense'', [0x1F6E1, 0xFE0F]),
      (u ''Diplomacy'', [0x1F91D]), (u ''Other'', [0x1F4F0])]"

definition get_emoji :: "json \<Rightarrow> json \<Rightarrow> exn + str \<times> str" where
  "get_emoji sentiment category =
     (case dict_get sentiment_emoji sentiment [0x26AA] of Inl e \<Rightarrow> Inl e | Inr se \<Rightarrow>
     (case dict_get category_emoji category [0x1F4F0] of Inl e \<Rightarrow> Inl e | Inr ce \<Rightarrow>
        Inr (se, ce)))"

definition color_map :: "(str \<times> int) list" where
  "color_map =
     [(u ''positive'', 5763719), (u ''negative'', 15548997), (u ''neutral'', 16776960)]"

text \<open>\<open>v.capitalize()\<close>: only a \<open>str\<close> has the method.\<close>

fun value_capitalize :: "lib \<Rightarrow> json \<Rightarrow> exn + json" where
  "value_capitalize l (JStr s) = Inr (JStr (capitalize l s))"
| "value_capitalize l v = Inl AttributeError"

text \<open>\<open>v[:n]\<close>: a \<open>str\<close> and a list can be sliced.\<close>

fun value_slice :: "nat \<Rightarrow> json \<Rightarrow> exn + json" where
  "value_slice n (JStr s) = Inr (JStr (take n s))"
| "value_slice n (JList xs) = Inr (JList (take n xs))"
| "value_slice n v = Inl TypeError"

text \<open>\<open>analysis.get('reasoning', '')\<close>, for an \<open>analysis\<close> that is a dict.\<close>

fun get_reasoning :: "json \<Rightarrow> json" where
  "get_reasoning (JDict d) = (case map_of d (u ''reasoning'') of None \<Rightarrow> JStr [] | Some v \<Rightarrow> v)"
| "get_reasoning v = JStr []"

record analyzed_item =
  item_article :: article
  item_analysis :: json

text \<open>The body of the loop over the items: the embed of one item, or the exception
  that an ill-formed analysis raises.\<close>

definition format_item :: "lib \<Rightarrow> analyzed_item \<Rightarrow> exn + embed" where
  "format_item l item =
     (case getitem_key (item_analysis item) (u ''sentiment'') of Inl e \<Rightarrow> Inl e | Inr sentiment \<Rightarrow>
     (case getitem_key (item_analysis item) (u ''category'') of Inl e \<Rightarrow> Inl e | Inr category \<Rightarrow>
     (case get_emoji sentiment category of Inl e \<Rightarrow> Inl e | Inr (se, ce) \<Rightarrow>
     (case dict_get color_map sentiment 3447003 of Inl e \<Rightarrow> Inl e | Inr color \<Rightarrow>
     (case value_capitalize l sentiment of Inl e \<Rightarrow> Inl e | Inr label \<Rightarrow>
     (case value_slice 100 (get_reasoning (item_analysis item)) of Inl e \<Rightarrow> Inl e | Inr reasoning \<Rightarrow>
        Inr \<lparr>embed_title = ce @ u '' '' @ take 200 (title (item_article item)),
             embed_description = None,
             embed_url = Some (link (item_article item)),
             embed_color = color,
             embed_timestamp = None,
             embed_fields =
               [\<lparr>field_name = [0x1F4F0] @ u '' Source'',
                 field_value = JStr (source (item_article item)), field_inline = True\<rparr>,
                \<lparr>field_name = se @ u '' Sentiment'',
                 field_value = label, field_inline = True\<rparr>,
                \<lparr>field_name = [0x1F3F7, 0xFE0F] @ u '' Category'',
                 field_value = category, field_inline = True\<rparr>,
                \<lparr>field_name = [0x1F4C5] @ u '' Published'',
                 field_value = JStr (take 50 (published (item_article item))),
                 field_inline = False\<rparr>],
             embed_footer = Some reasoning\<rparr>))))))"

fun format_items :: "lib \<Rightarrow> analyzed_item list \<Rightarrow> embed list \<Rightarrow> exn + embed list" where
  "format_items l [] es = Inr es"
| "format_items l (item # items) es =
     (case format_item l item of
        Inl e \<Rightarrow> Inl e
      | Inr em \<Rightarrow> format_items l items (es @ [em]))"

definition empty_embed :: "lib \<Rightarrow> embed" where
  "empty_embed l =
     \<lparr>embed_title = [0x1F4F0] @ u '' News Update'',
      embed_description = Some (u ''No articles mentioning India found in the last check.''),
      embed_url = None,
      embed_color = 3447003,
      embed_timestamp = Some (utcnow_isoformat l),
      embed_fields = [],
      embed_footer = None\<rparr>"

definition header_embed :: "lib \<Rightarrow> nat \<Rightarrow> embed" where
  "header_embed l n =
     \<lparr>embed_title = [0x1F30D] @ u '' What is world saying about India'',
      embed_description =
        Some (u ''Found **'' @ str_nat n @ u ''** articles mentioning India''),
      embed_url = None,
      embed_color = 16744192,
      embed_timestamp = Some (utcnow_isoformat l),
      embed_fields = [],
      embed_footer = None\<rparr>"

definition format_discord_message :: "lib \<Rightarrow> analyzed_item list \<Rightarrow> exn + payload" where
  "format_discord_message l articles_with_analysis =
     (if articles_with_analysis = [] then
        Inr \<lparr>username = u ''What is World is writng about India?'',
             avatar_url = u ''https://flagcdn.com/w160/in.png'',
             embeds = [empty_embed l]\<rparr>
      else
        (case format_items l articles_with_analysis
                [header_embed l (length articles_with_analysis)] of
           Inl e \<Rightarrow> Inl e
         | Inr es \<Rightarrow>
             Inr \<lparr>username = u ''What is world saying about India'',
                  avatar_url = u ''https://flagcdn.com/w160/in.png'',
                  embeds = es\<rparr>))"

section \<open>Publisher: \<open>send_to_discord\<close>\<close>




section \<open>The properties, in the words of the specification\<close>

text \<open>
  A spelling occurs in a title as a whole word: the title is \<open>pre @ mid @ post\<close> where
  \<open>mid\<close> is a spelling, no word character ends \<open>pre\<close> and none starts \<open>post\<close>.
\<close>

definition whole_word :: "lib \<Rightarrow> (str \<Rightarrow> bool) \<Rightarrow> str \<Rightarrow> bool" where
  "whole_word l spelling t =
     (\<exists>pre mid post. t = pre @ mid @ post \<and> spelling mid \<and>
        (pre = [] \<or> \<not> is_word_char l (last pre)) \<and>
        (post = [] \<or> \<not> is_word_char l (hd post)))"

text \<open>The spellings of a keyword whatever the case of its letters, and the keyword as a
  whole word of a title, case-insensitively.\<close>

definition any_case :: "str \<Rightarrow> str \<Rightarrow> bool" where
  "any_case kw mid = list_all2 (\<lambda>k m. ascii_lower m = ascii_lower k) kw mid"

definition whole_word_ci :: "lib \<Rightarrow> str \<Rightarrow> str \<Rightarrow> bool" where
  "whole_word_ci l kw t = whole_word l (any_case kw) t"

text \<open>The spellings of \<open>India\<close> with each letter in either case, where an \<open>i\<close> may also
  be written \<open>U+0130\<close> (capital I with a dot above) or \<open>U+0131\<close> (small dotless i).\<close>

definition india_ignorecase :: "str \<Rightarrow> bool" where
  "india_ignorecase mid =
     (\<exists>c1 c2 c3 c4 c5. mid = [c1, c2, c3, c4, c5] \<and>
        c1 \<in> {0x49, 0x69, 0x130, 0x131} \<and> c2 \<in> {0x4E, 0x6E} \<and> c3 \<in> {0x44, 0x64} \<and>
        c4 \<in> {0x49, 0x69, 0x130, 0x131} \<and> c5 \<in> {0x41, 0x61})"

text \<open>Standard output can write the line printed for each entry that is kept; the same
  of every feed that can be read.\<close>

definition titles_printable :: "lib \<Rightarrow> entry list \<Rightarrow> bool" where
  "titles_printable l es =
     list_all (\<lambda>e. list_all (encodable l) (found_line (get e (u ''title'') [])))
       (filter (\<lambda>e. whole_word l india_ignorecase (get e (u ''title'') [])) es)"

definition feed_printable :: "lib \<Rightarrow> str \<times> str \<Rightarrow> bool" where
  "feed_printable l src =
     (case feedparser_parse l (snd src) of Inl e \<Rightarrow> True | Inr es \<Rightarrow> titles_printable l es)"

text \<open>What the Fetcher and the Matcher yield for one source: nothing when its feed cannot
  be read, otherwise the articles of the entries whose title holds a spelling of the
  keyword as a whole word.\<close>

definition matching_articles :: "lib \<Rightarrow> str \<times> str \<Rightarrow> article list" where
  "matching_articles l src =
     (case feedparser_parse l (snd src) of
        Inl e \<Rightarrow> []
      | Inr es \<Rightarrow>
          map (make_article (fst src))
            (filter (\<lambda>e. whole_word l india_ignorecase (get e (u ''title'') [])) es))"

text \<open>A word occurs in a text; the number of the words of a list that occur in it.\<close>

definition occurs_in :: "str \<Rightarrow> str \<Rightarrow> bool" where
  "occurs_in word t = (\<exists>pre post. t = pre @ word @ post)"

definition listed_count :: "str list \<Rightarrow> str \<Rightarrow> nat" where
  "listed_count ws t = card {word. word \<in> set ws \<and> occurs_in word t}"

text \<open>The categories of the fallback in their priority order, each with its keywords;
  the first category of the table with a keyword in the text, \<open>Other\<close> when there is none.\<close>

definition category_keywords :: "(str \<times> str list) list" where
  "category_keywords =
     [(u ''Politics'',
         map u [''election'', ''government'', ''minister'', ''parliament'', ''party'']),
      (u ''Economy'', map u [''economy'', ''trade'', ''gdp'', ''market'', ''business'']),
      (u ''Sports'', map u [''cricket'', ''sport'', ''match'', ''olympic'']),
      (u ''Technology'', map u [''tech'', ''digital'', ''ai'', ''startup'']),
      (u ''Defense'', map u [''military'', ''defense'', ''army'', ''border''])]"

definition first_category :: "str \<Rightarrow> str" where
  "first_category t =
     (case find (\<lambda>row. \<exists>word. word \<in> set (snd row) \<and> occurs_in word t) category_keywords of
        None \<Rightarrow> u ''Other''
      | Some row \<Rightarrow> fst row)"

text \<open>The enumerations of a Verdict, and a value whose \<open>sentiment\<close> and \<open>category\<close>
  are drawn from them.\<close>

definition sentiments :: "str list" where
  "sentiments = map u [''positive'', ''negative'', ''neutral'']"

definition categories :: "str list" where
  "categories =
     map u [''Politics'', ''Economy'', ''Sports'', ''Technology'', ''Defense'', ''Diplomacy'',
            ''Other'']"

definition str_field_in :: "json \<Rightarrow> str \<Rightarrow> str list \<Rightarrow> bool" where
  "str_field_in v key allowed =
     (case getitem_key v key of Inr (JStr s) \<Rightarrow> s \<in> set allowed | _ \<Rightarrow> False)"

definition in_enumerations :: "json \<Rightarrow> bool" where
  "in_enumerations v =
     (str_field_in v (u ''sentiment'') sentiments \<and> str_field_in v (u ''category'') categories)"

text \<open>A Verdict of the data model: a dict whose \<open>sentiment\<close>, \<open>category\<close> and
  \<open>reasoning\<close> are strings.\<close>

definition is_str_field :: "json \<Rightarrow> str \<Rightarrow> bool" where
  "is_str_field v key = (case getitem_key v key of Inr (JStr s) \<Rightarrow> True | _ \<Rightarrow> False)"

definition is_verdict :: "json \<Rightarrow> bool" where
  "is_verdict v =
     (is_str_field v (u ''sentiment'') \<and> is_str_field v (u ''category'') \<and>
      is_str_field v (u ''reasoning''))"

text \<open>The remote call failed: a transport error, a status other than 200, or a reply
  that the statements after the call cannot turn into a value.\<close>

definition remote_failed :: "lib \<Rightarrow> article \<Rightarrow> world \<Rightarrow> bool" where
  "remote_failed l a w =
     (case fst (post l (Api_request (prompt a)) w) of
        Inl e \<Rightarrow> True
      | Inr r \<Rightarrow> status_code r \<noteq> 200 \<or> isl (parse_reply l r))"

section \<open>Concrete inputs\<close>

definition world0 :: world where
  "world0 = \<lparr>console = [], posts = 0\<rparr>"

definition world_cup_entry :: entry where
  "world_cup_entry =
     [u ''title'' \<mapsto> u ''India wins cricket World Cup'',
      u ''summary'' \<mapsto> u ''stadium celebrates historic win'']"

definition indiana_entry :: entry where
  "indiana_entry = [u ''title'' \<mapsto> u ''Indiana hosts conference'']"

text \<open>An entry whose title is \<open>U+0130\<close> followed by \<open>ndia\<close>.\<close>

definition dotted_entry :: entry where
  "dotted_entry = [u ''title'' \<mapsto> 0x130 # u ''ndia'']"

definition world_cup_article :: article where
  "world_cup_article =
     \<lparr>source = u ''The Guardian'', title = u ''India wins cricket World Cup'', link = [],
      published = u ''Date not available'', summary = u ''stadium celebrates historic win''\<rparr>"

definition unwinding_article :: article where
  "unwinding_article =
     \<lparr>source = u ''The Guardian'', title = u ''India unwinding'', link = [],
      published = u ''Date not available'', summary = []\<rparr>"

definition said_article :: article where
  "said_article =
     \<lparr>source = u ''The Guardian'', title = u ''India said'', link = [],
      published = u ''Date not available'', summary = []\<rparr>"

definition empty_article :: article where
  "empty_article = \<lparr>source = [], title = [], link = [], published = [], summary = []\<rparr>"

text \<open>
  A run in which no feed can be read, the network is down, no text parses as JSON and
  standard output can write every character. The concrete inputs below hold no character
  from \<open>0x180\<close> on but the check mark and the icons, which are no letters.
\<close>

definition lib_down :: lib where
  "lib_down =
     \<lparr>feedparser_parse = (\<lambda>url. Inl FeedException),
      requests_post = (\<lambda>n rq. Inl RequestException),
      json_loads = (\<lambda>s. Inl JSONDecodeError),
      exn_str = (\<lambda>e. STR ''error''),
      capitalize = (\<lambda>s. s),
      utcnow_isoformat = u ''2024-01-01T00:00:00'',
      ucd_isalnum = (\<lambda>n. False),
      ucd_lower = (\<lambda>before c after. [c]),
      stdout_encodes = (\<lambda>n. True)\<rparr>"

text \<open>A service that answers every post with status 500.\<close>

definition lib_500 :: lib where
  "lib_500 =
     lib_down\<lparr>requests_post :=
       (\<lambda>n rq. Inr \<lparr>status_code = 500, body_text = u ''Internal Server Error'',
                      body_json = Inl JSONDecodeError\<rparr>)\<rparr>"

text \<open>A webhook that answers every post with status 204, with a standard output that
  writes every character, and with one that writes ASCII only.\<close>

definition lib_204 :: lib where
  "lib_204 =
     lib_down\<lparr>requests_post :=
       (\<lambda>n rq. Inr \<lparr>status_code = 204, body_text = [], body_json = Inl JSONDecodeError\<rparr>)\<rparr>"

definition lib_204_ascii :: lib where
  "lib_204_ascii = lib_204\<lparr>stdout_encodes := (\<lambda>n. False)\<rparr>"


text \<open>A reply of the classification service with status 200 whose text is a JSON object
  with a sentiment and a category outside the enumerations.\<close>

definition mixed_text :: str where
  \<open>mixed_text =
     u ''{"sentiment": "mixed", "category": "Weather", "reasoning": "Monsoon forecast."}''\<close>

definition mixed_verdict :: json where
  "mixed_verdict =
     JDict [(u ''sentiment'', JStr (u ''mixed'')), (u ''category'', JStr (u ''Weather'')),
            (u ''reasoning'', JStr (u ''Monsoon forecast.''))]"

definition esc :: "string \<Rightarrow> str" where
  "esc s = [0x5C, 0x22] @ u s @ [0x5C, 0x22]"

definition mixed_body :: str where
  \<open>mixed_body =
     u ''{"content": [{"type": "text", "text": "{'' @
     esc ''sentiment'' @ u '': '' @ esc ''mixed'' @ u '', '' @
     esc ''category'' @ u '': '' @ esc ''Weather'' @ u '', '' @
     esc ''reasoning'' @ u '': '' @ esc ''Monsoon forecast.'' @ u ''}"}]}''\<close>

definition mixed_response :: response where
  "mixed_response =
     \<lparr>status_code = 200,
      body_text = mixed_body,
      body_json = Inr (JDict [(u ''content'',
                     JList [JDict [(u ''type'', JStr (u ''text'')),
                                   (u ''text'', JStr mixed_text)]])])\<rparr>"

definition lib_mixed :: lib where
  "lib_mixed =
     lib_down\<lparr>requests_post := (\<lambda>n rq. Inr mixed_response),
              json_loads :=
                (\<lambda>s. if s = mixed_text then Inr mixed_verdict else Inl JSONDecodeError)\<rparr>"

definition two_items :: "analyzed_item list" where
  "two_items =
     [\<lparr>item_article = world_cup_article,
       item_analysis = fallback_analysis lib_down world_cup_article\<rparr>,
      \<lparr>item_article = said_article, item_analysis = mixed_verdict\<rparr>]"


section \<open>Literals and printing\<close>

lemma u_eq_iff [simp]: "u s = u t \<longleftrightarrow> s = t"
  unfolding u_def using inj_of_char [where ?'a = int] by (simp add: inj_map_eq_map)

lemma length_u [simp]: "length (u s) = length s"
  by (simp add: u_def)

lemma ascii_append [simp]: "ascii (s @ t) \<longleftrightarrow> ascii s \<and> ascii t"
  by (simp add: ascii_def)

lemma ascii_exn_text: "ascii (exn_text l e)"
proof -
  have "\<forall>c\<in>set (String.explode (exn_str l e)). \<not> digit7 c"
    using String.explode [of "exn_str l e"] by simp
  moreover have "of_char c < (128::int)" if "\<not> digit7 c" for c
  proof -
    have "String.ascii_of c = c" using that by (rule String.ascii_of_idem)
    then have "(of_char c :: int) = take_bit 7 (of_char c)"
      using String.char_of_ascii_of [of c, where ?'a = int] by simp
    also have "\<dots> < 2 ^ 7" by (rule take_bit_int_less_exp)
    finally show ?thesis by simp
  qed
  ultimately show ?thesis
    by (simp add: ascii_def exn_text_def u_def list_all_iff)
qed

lemma ascii_str_nat: "ascii (str_nat n)"
proof (induction n rule: str_nat.induct)
  case (1 n)
  show ?case
  proof (cases "n < 10")
    case True
    then show ?thesis by (simp add: str_nat.simps [of n] ascii_def)
  next
    case False
    have "n mod 10 < 10" by simp
    then have "48 + int (n mod 10) < 128" by linarith
    then show ?thesis using False "1.IH" by (simp add: str_nat.simps [of n] ascii_def)
  qed
qed

lemma ascii_str_int: "ascii (str_int i)"
  using ascii_str_nat by (simp add: str_int_def ascii_def)

lemma print_ascii:
  assumes "ascii line"
  shows "print l line w = Inr (w\<lparr>console := console w @ [line]\<rparr>)"
proof -
  have "list_all (encodable l) line"
    using assms by (simp add: ascii_def encodable_def list_all_iff)
  then show ?thesis by (simp add: print_def)
qed

section \<open>Substring tests\<close>

lemma startswith_iff: "startswith s p \<longleftrightarrow> (\<exists>r. s = p @ r)"
  by (induction s p rule: startswith.induct) auto

lemma str_in_occurs: "str_in word t \<longleftrightarrow> occurs_in word t"
  unfolding occurs_in_def
proof (induction t)
  case Nil
  then show ?case by (simp add: startswith_iff)
next
  case (Cons c cs)
  show ?case
  proof
    assume "str_in word (c # cs)"
    then consider "startswith (c # cs) word" | "str_in word cs" by auto
    then show "\<exists>pre post. c # cs = pre @ word @ post"
    proof cases
      case 1
      then obtain r where "c # cs = word @ r" by (auto simp: startswith_iff)
      then have "c # cs = [] @ word @ r" by simp
      then show ?thesis by blast
    next
      case 2
      then obtain pre post where "cs = pre @ word @ post" using Cons.IH by blast
      then have "c # cs = (c # pre) @ word @ post" by simp
      then show ?thesis by blast
    qed
  next
    assume "\<exists>pre post. c # cs = pre @ word @ post"
    then obtain pre post where e: "c # cs = pre @ word @ post" by blast
    show "str_in word (c # cs)"
    proof (cases pre)
      case Nil
      with e have "startswith (c # cs) word" by (auto simp: startswith_iff)
      then show ?thesis by simp
    next
      case (Cons d ds)
      with e have "cs = ds @ word @ post" by simp
      then have "str_in word cs" using Cons.IH by blast
      then show ?thesis by simp
    qed
  qed
qed

lemma count_words_length: "count_words ws t = length (filter (\<lambda>word. occurs_in word t) ws)"
  unfolding count_words_def str_in_occurs by (induction ws) simp_all

lemma count_words_card:
  assumes "distinct ws"
  shows "count_words ws t = listed_count ws t"
proof -
  have "distinct (filter (\<lambda>word. occurs_in word t) ws)" using assms by simp
  then have "length (filter (\<lambda>word. occurs_in word t) ws)
               = card (set (filter (\<lambda>word. occurs_in word t) ws))"
    by (rule distinct_card [symmetric])
  also have "set (filter (\<lambda>word. occurs_in word t) ws) = {word. word \<in> set ws \<and> occurs_in word t}"
    by auto
  finally show ?thesis by (simp add: count_words_length listed_count_def)
qed

lemma distinct_positive_words: "distinct positive_words"
  by (simp add: positive_words_def)

lemma distinct_negative_words: "distinct negative_words"
  by (simp add: negative_words_def)

lemma any_in_iff: "any_in ws t \<longleftrightarrow> (\<exists>word. word \<in> set ws \<and> occurs_in word t)"
  unfolding any_in_def str_in_occurs by (auto simp: list_ex_iff)

section \<open>The fallback verdict\<close>

lemma fallback_category_first: "fallback_category t = first_category t"
  unfolding fallback_category_def first_category_def category_keywords_def any_in_iff
  by simp

lemma fallback_category_cases:
  "fallback_category t \<in> {u ''Politics'', u ''Economy'', u ''Sports'', u ''Technology'',
                          u ''Defense'', u ''Other''}"
  by (simp add: fallback_category_def)

lemma fallback_sentiment_cases:
  "fallback_sentiment t \<in> {u ''positive'', u ''negative'', u ''neutral''}"
  by (simp add: fallback_sentiment_def Let_def)

lemma fallback_fields:
  "getitem_key (fallback_analysis l a) (u ''sentiment'')
     = Inr (JStr (fallback_sentiment (analysis_text l a)))"
  "getitem_key (fallback_analysis l a) (u ''category'')
     = Inr (JStr (fallback_category (analysis_text l a)))"
  "getitem_key (fallback_analysis l a) (u ''reasoning'') = Inr (JStr (u ''Keyword-based analysis''))"
  by (simp_all add: fallback_analysis_def)

lemma fallback_in_enumerations: "in_enumerations (fallback_analysis l a)"
proof -
  have "fallback_sentiment (analysis_text l a) \<in> set sentiments"
    using fallback_sentiment_cases [of "analysis_text l a"] by (simp add: sentiments_def)
  moreover have "fallback_category (analysis_text l a) \<in> set categories"
    using fallback_category_cases [of "analysis_text l a"] by (auto simp: categories_def)
  ultimately show ?thesis
    by (simp add: in_enumerations_def str_field_in_def fallback_fields)
qed

section \<open>The regular expression of the Matcher, characterised\<close>

lemma match_literals:
  "match_here l (map Lit kw @ r) p s \<longleftrightarrow>
     (\<exists>mid rest. s = mid @ rest \<and> list_all2 lit_matches_ci kw mid \<and>
        match_here l r (if mid = [] then p else Some (last mid)) rest)"
proof (induction kw arbitrary: p s)
  case Nil
  then show ?case by auto
next
  case (Cons k ks)
  show ?case
  proof (cases s)
    case Nil
    then show ?thesis by (auto simp: list_all2_Cons1)
  next
    case (Cons c cs)
    have "match_here l (map Lit (k # ks) @ r) p s \<longleftrightarrow>
            lit_matches_ci k c \<and> match_here l (map Lit ks @ r) (Some c) cs"
      using Cons by simp
    also have "\<dots> \<longleftrightarrow> lit_matches_ci k c \<and>
        (\<exists>mid rest. cs = mid @ rest \<and> list_all2 lit_matches_ci ks mid \<and>
           match_here l r (if mid = [] then Some c else Some (last mid)) rest)"
      using Cons.IH [of "Some c" cs] by simp
    also have "\<dots> \<longleftrightarrow> (\<exists>mid rest. s = mid @ rest \<and> list_all2 lit_matches_ci (k # ks) mid \<and>
           match_here l r (if mid = [] then p else Some (last mid)) rest)"
      (is "?L \<longleftrightarrow> ?R")
    proof
      assume ?L
      then obtain mid rest where m: "lit_matches_ci k c" "cs = mid @ rest"
        "list_all2 lit_matches_ci ks mid"
        "match_here l r (if mid = [] then Some c else Some (last mid)) rest"
        by blast
      have "s = (c # mid) @ rest" using Cons m by simp
      moreover have "list_all2 lit_matches_ci (k # ks) (c # mid)" using m by simp
      moreover have "match_here l r (if c # mid = [] then p else Some (last (c # mid))) rest"
        using m by (cases "mid = []") simp_all
      ultimately show ?R by blast
    next
      assume ?R
      then obtain mid rest where m: "s = mid @ rest" "list_all2 lit_matches_ci (k # ks) mid"
        "match_here l r (if mid = [] then p else Some (last mid)) rest"
        by blast
      from m(2) obtain d ds where d: "mid = d # ds" "lit_matches_ci k d"
        "list_all2 lit_matches_ci ks ds"
        by (auto simp: list_all2_Cons1)
      have "c = d" "cs = ds @ rest" using Cons m(1) d(1) by simp_all
      moreover have "match_here l r (if ds = [] then Some d else Some (last ds)) rest"
        using m(3) d(1) by (cases "ds = []") simp_all
      ultimately show ?L using d(2,3) by blast
    qed
    finally show ?thesis .
  qed
qed

lemma search_from_iff:
  "search_from l r p s \<longleftrightarrow>
     (\<exists>pre rest. s = pre @ rest \<and> match_here l r (if pre = [] then p else Some (last pre)) rest)"
proof (induction s arbitrary: p)
  case Nil
  then show ?case by simp
next
  case (Cons c cs)
  show ?case (is "?L \<longleftrightarrow> ?R")
  proof
    assume ?L
    then consider "match_here l r p (c # cs)" | "search_from l r (Some c) cs" by auto
    then show ?R
    proof cases
      case 1
      then have "c # cs = [] @ (c # cs) \<and>
          match_here l r (if [] = [] then p else Some (last [])) (c # cs)"
        by simp
      then show ?thesis by blast
    next
      case 2
      then obtain pre rest where m: "cs = pre @ rest"
        "match_here l r (if pre = [] then Some c else Some (last pre)) rest"
        using Cons.IH [of "Some c"] by blast
      have "c # cs = (c # pre) @ rest" using m by simp
      moreover have "match_here l r (if c # pre = [] then p else Some (last (c # pre))) rest"
        using m by (cases "pre = []") simp_all
      ultimately show ?thesis by blast
    qed
  next
    assume ?R
    then obtain pre rest where m: "c # cs = pre @ rest"
      "match_here l r (if pre = [] then p else Some (last pre)) rest" by blast
    show ?L
    proof (cases pre)
      case Nil
      then have "match_here l r p (c # cs)" using m by auto
      then show ?thesis by simp
    next
      case (Cons d ds)
      then have "cs = ds @ rest" "match_here l r (if ds = [] then Some c else Some (last ds)) rest"
        using m by (auto split: if_splits)
      then have "search_from l r (Some c) cs" using Cons.IH [of "Some c"] by blast
      then show ?thesis by simp
    qed
  qed
qed

lemma list_all2_ends:
  assumes "list_all2 R kw mid" and "kw \<noteq> []"
  shows "mid \<noteq> [] \<and> R (hd kw) (hd mid) \<and> R (last kw) (last mid)"
proof -
  have len: "length kw = length mid" using assms(1) by (rule list_all2_lengthD)
  then have ne: "mid \<noteq> []" using assms(2) by auto
  have "R (kw ! 0) (mid ! 0)"
    using assms list_all2_nthD [of R kw mid 0] by simp
  then have h: "R (hd kw) (hd mid)" using assms(2) ne by (simp add: hd_conv_nth)
  have "R (kw ! (length kw - 1)) (mid ! (length kw - 1))"
    using assms list_all2_nthD [of R kw mid "length kw - 1"] by simp
  then have "R (last kw) (last mid)" using assms(2) ne len by (simp add: last_conv_nth)
  then show ?thesis using ne h by simp
qed

lemma match_word:
  assumes "kw \<noteq> []"
    and "\<And>c. lit_matches_ci (hd kw) c \<Longrightarrow> is_word_char l c"
    and "\<And>c. lit_matches_ci (last kw) c \<Longrightarrow> is_word_char l c"
  shows "match_here l (Bnd # map Lit kw @ [Bnd]) p s \<longleftrightarrow>
     (\<exists>mid post. s = mid @ post \<and> list_all2 lit_matches_ci kw mid \<and>
        \<not> word_before l p \<and> \<not> word_after l post)"
    (is "?L \<longleftrightarrow> ?R")
proof -
  have ends: "mid \<noteq> [] \<and> is_word_char l (hd mid) \<and> is_word_char l (last mid)"
    if "list_all2 lit_matches_ci kw mid" for mid
    using list_all2_ends [OF that assms(1)] assms(2,3) by blast
  have "?L \<longleftrightarrow> word_before l p \<noteq> word_after l s \<and>
      (\<exists>mid rest. s = mid @ rest \<and> list_all2 lit_matches_ci kw mid \<and>
         word_before l (if mid = [] then p else Some (last mid)) \<noteq> word_after l rest)"
    using match_literals [of l kw "[Bnd]" p s] by simp
  also have "\<dots> \<longleftrightarrow> ?R"
  proof
    assume "word_before l p \<noteq> word_after l s \<and>
      (\<exists>mid rest. s = mid @ rest \<and> list_all2 lit_matches_ci kw mid \<and>
         word_before l (if mid = [] then p else Some (last mid)) \<noteq> word_after l rest)"
    then obtain mid rest where m: "word_before l p \<noteq> word_after l s" "s = mid @ rest"
      "list_all2 lit_matches_ci kw mid"
      "word_before l (if mid = [] then p else Some (last mid)) \<noteq> word_after l rest"
      by blast
    from ends [OF m(3)] have e: "mid \<noteq> []" "is_word_char l (hd mid)" "is_word_char l (last mid)"
      by simp_all
    have "word_after l s" using m(2) e by (cases mid) (simp_all add: word_after_def)
    then have "\<not> word_before l p" using m(1) by simp
    moreover have "\<not> word_after l rest" using m(4) e by (simp add: word_before_def)
    ultimately show ?R using m(2,3) by blast
  next
    assume ?R
    then obtain mid post where m: "s = mid @ post" "list_all2 lit_matches_ci kw mid"
      "\<not> word_before l p" "\<not> word_after l post" by blast
    from ends [OF m(2)] have e: "mid \<noteq> []" "is_word_char l (hd mid)" "is_word_char l (last mid)"
      by simp_all
    have "word_after l s" using m(1) e by (cases mid) (simp_all add: word_after_def)
    then have "word_before l p \<noteq> word_after l s" using m(3) by simp
    moreover have "word_before l (if mid = [] then p else Some (last mid)) \<noteq> word_after l post"
      using m(4) e by (simp add: word_before_def)
    ultimately show "word_before l p \<noteq> word_after l s \<and>
      (\<exists>mid rest. s = mid @ rest \<and> list_all2 lit_matches_ci kw mid \<and>
         word_before l (if mid = [] then p else Some (last mid)) \<noteq> word_after l rest)"
      using m(1,2) by blast
  qed
  finally show ?thesis .
qed

lemma re_search_word:
  assumes "kw \<noteq> []"
    and "\<And>c. lit_matches_ci (hd kw) c \<Longrightarrow> is_word_char l c"
    and "\<And>c. lit_matches_ci (last kw) c \<Longrightarrow> is_word_char l c"
  shows "re_search l (Bnd # map Lit kw @ [Bnd]) t \<longleftrightarrow> whole_word l (list_all2 lit_matches_ci kw) t"
proof -
  have wb: "\<not> word_before l (if pre = [] then None else Some (last pre)) \<longleftrightarrow>
      (pre = [] \<or> \<not> is_word_char l (last pre))" for pre
    by (simp add: word_before_def)
  have wa: "\<not> word_after l post \<longleftrightarrow> (post = [] \<or> \<not> is_word_char l (hd post))" for post
    by (cases post) (simp_all add: word_after_def)
  have mw: "match_here l (Bnd # map Lit kw @ [Bnd]) p s \<longleftrightarrow>
     (\<exists>mid post. s = mid @ post \<and> list_all2 lit_matches_ci kw mid \<and>
        \<not> word_before l p \<and> \<not> word_after l post)" for p s
    using assms by (rule match_word)
  have "re_search l (Bnd # map Lit kw @ [Bnd]) t \<longleftrightarrow>
     (\<exists>pre rest. t = pre @ rest \<and>
        (\<exists>mid post. rest = mid @ post \<and> list_all2 lit_matches_ci kw mid \<and>
           \<not> word_before l (if pre = [] then None else Some (last pre)) \<and> \<not> word_after l post))"
    unfolding re_search_def search_from_iff [of l _ None t] mw ..
  also have "\<dots> \<longleftrightarrow> whole_word l (list_all2 lit_matches_ci kw) t"
    unfolding whole_word_def wb wa by blast
  finally show ?thesis .
qed

text \<open>A character that \<open>re.IGNORECASE\<close> matches with an ASCII letter other than \<open>k\<close>
  is a word character.\<close>

lemma letter_match_word:
  assumes "(65 \<le> k \<and> k \<le> 90) \<or> (97 \<le> k \<and> k \<le> 122)"
    and "ascii_lower k \<noteq> 107"
    and "lit_matches_ci k c"
  shows "is_word_char l c"
proof -
  have lk: "97 \<le> ascii_lower k \<and> ascii_lower k \<le> 122"
    using assms(1) by (auto simp: ascii_lower_def)
  consider "ascii_lower c = ascii_lower k" | "c = 0x130" | "c = 0x131" | "c = 0x17F"
    using assms(2,3) by (auto simp: lit_matches_ci_def)
  then show ?thesis
  proof cases
    case 1
    then have "(65 \<le> c \<and> c \<le> 90) \<or> (97 \<le> c \<and> c \<le> 122)"
      using lk by (auto simp: ascii_lower_def split: if_splits)
    then show ?thesis by (auto simp: is_word_char_def low_isalnum_def)
  qed (simp_all add: is_word_char_def low_isalnum_def)
qed

lemma any_case_matches:
  assumes "any_case kw mid"
  shows "list_all2 lit_matches_ci kw mid"
  using assms unfolding any_case_def
  by (rule list_all2_mono) (simp add: lit_matches_ci_def)

lemma india_spellings: "list_all2 lit_matches_ci (u ''India'') mid \<longleftrightarrow> india_ignorecase mid"
proof -
  have i: "lit_matches_ci 73 c \<longleftrightarrow> c \<in> {0x49, 0x69, 0x130, 0x131}"
    and n: "lit_matches_ci 110 c \<longleftrightarrow> c \<in> {0x4E, 0x6E}"
    and d: "lit_matches_ci 100 c \<longleftrightarrow> c \<in> {0x44, 0x64}"
    and i': "lit_matches_ci 105 c \<longleftrightarrow> c \<in> {0x49, 0x69, 0x130, 0x131}"
    and a: "lit_matches_ci 97 c \<longleftrightarrow> c \<in> {0x41, 0x61}" for c
    by (auto simp: lit_matches_ci_def ascii_lower_def split: if_splits)
  have "u ''India'' = [73, 110, 100, 105, 97]" by (simp add: u_def)
  then show ?thesis
    unfolding india_ignorecase_def by (auto simp: list_all2_Cons1 i n d i' a)
qed

lemma keyword_search: "re_search l keyword_pattern t \<longleftrightarrow> whole_word l india_ignorecase t"
proof -
  have k: "u ''India'' = [73, 110, 100, 105, 97]" by (simp add: u_def)
  have "re_search l (Bnd # map Lit (u ''India'') @ [Bnd]) t
          \<longleftrightarrow> whole_word l (list_all2 lit_matches_ci (u ''India'')) t"
  proof (rule re_search_word)
    show "u ''India'' \<noteq> []" by (simp add: k)
    show "is_word_char l c" if "lit_matches_ci (hd (u ''India'')) c" for c
      using that letter_match_word [of 73 c l] by (simp add: k ascii_lower_def)
    show "is_word_char l c" if "lit_matches_ci (last (u ''India'')) c" for c
      using that letter_match_word [of 97 c l] by (simp add: k ascii_lower_def)
  qed
  moreover have "list_all2 lit_matches_ci (u ''India'') = india_ignorecase"
    using india_spellings by blast
  ultimately show ?thesis by (simp add: keyword_pattern_def)
qed

section \<open>The Matcher\<close>

lemma ascii_encodable:
  assumes "ascii s"
  shows "list_all (encodable l) s"
  using assms by (simp add: ascii_def encodable_def list_all_iff)

lemma found_line_printable:
  "list_all (encodable l) (found_line t)
     \<longleftrightarrow> encodable l 0x2713 \<and> list_all (encodable l) (take 60 t)"
proof -
  have "ascii (u ''  '')" "ascii (u '' Found: '')" "ascii (u ''...'')"
    by (simp_all add: ascii_def u_def)
  then show ?thesis
    using ascii_encodable by (auto simp: found_line_def)
qed

lemma scan_entries_single:
  "fst (snd (scan_entries l src [e] found w)) =
     (if re_search l keyword_pattern (get e (u ''title'') []) then found @ [make_article src e]
      else found)"
  by (simp split: sum.splits)

lemma scan_entries_printable:
  assumes "titles_printable l es"
  shows "\<exists>w'. scan_entries l src es found w =
     (Inr (), found @ map (make_article src)
                (filter (\<lambda>e. re_search l keyword_pattern (get e (u ''title'') [])) es), w')"
  using assms
proof (induction es arbitrary: found w)
  case Nil
  then show ?case by simp
next
  case (Cons e es)
  have rest: "titles_printable l es"
    using Cons.prems by (simp add: titles_printable_def split: if_splits)
  show ?case
  proof (cases "re_search l keyword_pattern (get e (u ''title'') [])")
    case False
    then show ?thesis using Cons.IH [OF rest, of found w] by simp
  next
    case True
    have "list_all (encodable l) (found_line (get e (u ''title'') []))"
      using Cons.prems True by (simp add: titles_printable_def keyword_search)
    then obtain w1 where w1: "print l (found_line (get e (u ''title'') [])) w = Inr w1"
      by (simp add: print_def)
    show ?thesis
      using True w1 Cons.IH [OF rest, of "found @ [make_article src e]" w1] by simp
  qed
qed

lemma try_source_printable:
  assumes "ascii name" and "feed_printable l (name, url)"
  shows "\<exists>r w'. try_source l name url found w =
           (r, found @ matching_articles l (name, url), w')"
proof -
  have "ascii (u ''Fetching from '' @ name @ u ''...'')"
    using assms(1) by (simp add: ascii_def u_def)
  then obtain w1 where w1: "print l (u ''Fetching from '' @ name @ u ''...'') w = Inr w1"
    using print_ascii by blast
  show ?thesis
  proof (cases "feedparser_parse l url")
    case (Inl e)
    then show ?thesis by (simp add: try_source_def w1 matching_articles_def)
  next
    case (Inr es)
    then have "titles_printable l es" using assms(2) by (simp add: feed_printable_def)
    then obtain w2 where "scan_entries l name es found w1 =
        (Inr (), found @ map (make_article name)
           (filter (\<lambda>e. re_search l keyword_pattern (get e (u ''title'') [])) es), w2)"
      using scan_entries_printable by blast
    then show ?thesis
      using Inr by (simp add: try_source_def w1 matching_articles_def keyword_search)
  qed
qed

lemma scan_sources_printable:
  assumes "list_all (\<lambda>src. ascii (fst src) \<and> feed_printable l src) srcs"
  shows "\<exists>w'. scan_sources l srcs found w =
           (Inr (), found @ concat (map (matching_articles l) srcs), w')"
  using assms
proof (induction srcs arbitrary: found w)
  case Nil
  then show ?case by simp
next
  case (Cons src srcs)
  obtain name url where src: "src = (name, url)" by (cases src)
  have a: "ascii name" and f: "feed_printable l (name, url)"
    and rest: "list_all (\<lambda>src. ascii (fst src) \<and> feed_printable l src) srcs"
    using Cons.prems by (simp_all add: src)
  obtain r w1 where t: "try_source l name url found w =
      (r, found @ matching_articles l (name, url), w1)"
    using try_source_printable [OF a f] by blast
  show ?case
  proof (cases r)
    case (Inr ok)
    then show ?thesis
      using t Cons.IH [OF rest, of "found @ matching_articles l (name, url)" w1]
      by (simp add: src)
  next
    case (Inl e)
    have "ascii (u ''Error fetching from '' @ name @ u '': '' @ exn_text l e)"
      using a ascii_exn_text by (simp add: ascii_def u_def)
    then obtain w2 where
      "print l (u ''Error fetching from '' @ name @ u '': '' @ exn_text l e) w1 = Inr w2"
      using print_ascii by blast
    then show ?thesis
      using Inl t Cons.IH [OF rest, of "found @ matching_articles l (name, url)" w2]
      by (simp add: src)
  qed
qed

lemma news_sources_ascii: "list_all (\<lambda>src. ascii (fst src)) news_sources"
  by (simp add: news_sources_def ascii_def u_def)

lemma fetch_articles_printable:
  assumes "list_all (feed_printable l) news_sources"
  shows "fst (fetch_articles l w) = Inr (concat (map (matching_articles l) news_sources))"
proof -
  have "list_all (\<lambda>src. ascii (fst src) \<and> feed_printable l src) news_sources"
    using assms news_sources_ascii by (simp add: list_all_iff)
  then obtain w' where "scan_sources l news_sources [] w =
      (Inr (), concat (map (matching_articles l) news_sources), w')"
    using scan_sources_printable [of l news_sources "[]" w] by auto
  then show ?thesis by (simp add: fetch_articles_def)
qed

lemma world_cup_title: "re_search l keyword_pattern (u ''India wins cricket World Cup'')"
  by code_simp

lemma indiana_title: "\<not> re_search l keyword_pattern (u ''Indiana hosts conference'')"
  by code_simp

lemma dotted_title: "re_search l keyword_pattern (0x130 # u ''ndia'')"
  by code_simp

lemma entry_titles:
  "get world_cup_entry (u ''title'') [] = u ''India wins cricket World Cup''"
  "get indiana_entry (u ''title'') [] = u ''Indiana hosts conference''"
  "get dotted_entry (u ''title'') [] = 0x130 # u ''ndia''"
  by (simp_all add: get_def world_cup_entry_def indiana_entry_def dotted_entry_def)

text \<open>With a standard output that writes ASCII only, the \<open>print\<close> after the first kept
  entry raises, and the second entry of the feed, which matches too, is not kept.\<close>

lemma matcher_print_failure:
  "scan_entries lib_204_ascii (u ''The Guardian'') [world_cup_entry, world_cup_entry] [] world0
     = (Inl UnicodeEncodeError, [make_article (u ''The Guardian'') world_cup_entry], world0)"
proof -
  have "\<not> list_all (encodable lib_204_ascii) (found_line (u ''India wins cricket World Cup''))"
    by (simp add: found_line_printable encodable_def lib_204_ascii_def lib_204_def lib_down_def)
  then show ?thesis
    by (simp add: entry_titles world_cup_title print_def)
qed

text \<open>
  C2, as the claim states it, fails: the title \<open>U+0130\<close> followed by \<open>ndia\<close> does not
  hold \<open>India\<close> in any case of its letters, and the Matcher keeps the entry.
\<close>

theorem matcher_keeps_dotted_capital:
  "fst (snd (scan_entries lib_down (u ''The Guardian'') [dotted_entry] [] world0))
     = [make_article (u ''The Guardian'') dotted_entry]
   \<and> \<not> whole_word_ci lib_down (u ''India'') (get dotted_entry (u ''title'') [])"
proof -
  have k: "u ''India'' = [73, 110, 100, 105, 97]" and t: "u ''ndia'' = [110, 100, 105, 97]"
    by (simp_all add: u_def)
  have "\<not> whole_word_ci lib_down (u ''India'') (0x130 # u ''ndia'')"
  proof
    assume "whole_word_ci lib_down (u ''India'') (0x130 # u ''ndia'')"
    then obtain pre mid post where m: "0x130 # u ''ndia'' = pre @ mid @ post"
      "any_case (u ''India'') mid"
      by (auto simp: whole_word_ci_def whole_word_def)
    have "length [73, 110, 100, 105, 97 :: int] = length mid"
      using m(2) unfolding any_case_def k by (rule list_all2_lengthD)
    then have "length mid = 5" by simp
    moreover have "length (pre @ mid @ post) = 5" using m(1) [symmetric] by (simp add: t)
    ultimately have "pre = []" "post = []" by simp_all
    then have "mid = 0x130 # u ''ndia''" using m(1) by simp
    then show False using m(2) by (simp add: any_case_def k ascii_lower_def)
  qed
  then show ?thesis
    unfolding scan_entries_single entry_titles using dotted_title by simp
qed

text \<open>
  C2, amended. When standard output can write the line printed for each entry that is
  kept, the loop over the entries of a feed keeps exactly the entries whose title (the
  empty string when the entry has none) contains, as a whole word, \<open>India\<close> with each
  letter in either case, an \<open>i\<close> possibly written \<open>U+0130\<close> or \<open>U+0131\<close>, in their
  order. Changing the
  summary of an entry does not change whether it is kept; the title
  \<open>Indiana hosts conference\<close> is not kept. Under the same condition on every feed,
  \<open>fetch_articles\<close> returns the articles of the kept entries of the readable feeds,
  source after source.
\<close>

theorem matcher_whole_word:
  "(titles_printable l es \<longrightarrow>
      (\<exists>w'. scan_entries l src es found w =
         (Inr (),
          found @ map (make_article src)
                    (filter (\<lambda>e. whole_word l india_ignorecase (get e (u ''title'') [])) es),
          w')))
   \<and> (fst (snd (scan_entries l src [e(u ''summary'' := s)] [] w)) = []
        \<longleftrightarrow> fst (snd (scan_entries l src [e] [] w)) = [])
   \<and> fst (snd (scan_entries l src [indiana_entry] [] w)) = []
   \<and> (list_all (feed_printable l) news_sources \<longrightarrow>
        fst (fetch_articles l w) = Inr (concat (map (matching_articles l) news_sources)))"
proof -
  have "get (e(u ''summary'' := s)) (u ''title'') [] = get e (u ''title'') []"
    by (simp add: get_def)
  then have "fst (snd (scan_entries l src [e(u ''summary'' := s)] [] w)) = []
        \<longleftrightarrow> fst (snd (scan_entries l src [e] [] w)) = []"
    unfolding scan_entries_single by simp
  moreover have "fst (snd (scan_entries l src [indiana_entry] [] w)) = []"
    unfolding scan_entries_single entry_titles using indiana_title by simp
  moreover have "\<exists>w'. scan_entries l src es found w =
         (Inr (),
          found @ map (make_article src)
                    (filter (\<lambda>e. whole_word l india_ignorecase (get e (u ''title'') [])) es),
          w')" if "titles_printable l es"
    using scan_entries_printable [OF that, of src found w] by (simp add: keyword_search)
  ultimately show ?thesis using fetch_articles_printable by blast
qed

lemma lib_down_encodable: "encodable lib_down c"
  by (simp add: encodable_def lib_down_def)

lemma three_entries_printable:
  "titles_printable lib_down [world_cup_entry, dotted_entry, indiana_entry]"
  using lib_down_encodable by (simp add: titles_printable_def list_all_iff)

lemma no_feeds_printable: "list_all (feed_printable lib_down) news_sources"
  by (simp add: feed_printable_def lib_down_def news_sources_def)

theorem matcher_whole_word_witness:
  "titles_printable lib_down [world_cup_entry, dotted_entry, indiana_entry]
   \<and> (\<exists>w'. scan_entries lib_down (u ''The Guardian'')
               [world_cup_entry, dotted_entry, indiana_entry] [] world0 =
         (Inr (),
          map (make_article (u ''The Guardian''))
            (filter (\<lambda>e. whole_word lib_down india_ignorecase (get e (u ''title'') []))
               [world_cup_entry, dotted_entry, indiana_entry]),
          w'))
   \<and> list_all (feed_printable lib_down) news_sources
   \<and> fst (fetch_articles lib_down world0)
       = Inr (concat (map (matching_articles lib_down) news_sources))"
  using matcher_whole_word
          [of lib_down "[world_cup_entry, dotted_entry, indiana_entry]" "u ''The Guardian''"
              "[]" world0]
        three_entries_printable no_feeds_printable
  by simp

section \<open>The fallback classifier\<close>

text \<open>
  C4. The sentiment of the fallback verdict compares the number of positive words that
  occur in the text with the number of negative words that occur in it, the text being
  the lower-case title, a space and the lower-case summary: \<open>positive\<close> when there are
  more positive words, \<open>negative\<close> when there are more negative ones, \<open>neutral\<close>
  otherwise. The verdict is a function of the title and the summary alone.
\<close>

theorem fallback_sentiment_rule:
  "getitem_key (fallback_analysis l a) (u ''sentiment'') =
     Inr (JStr (let t = lower l (title a) @ u '' '' @ lower l (summary a);
                    p = listed_count positive_words t;
                    n = listed_count negative_words t
                in if p > n then u ''positive''
                   else if n > p then u ''negative'' else u ''neutral''))
   \<and> (title a = title b \<and> summary a = summary b \<longrightarrow>
        fallback_analysis l a = fallback_analysis l b)"
  by (simp add: fallback_fields fallback_sentiment_def analysis_text_def fallback_analysis_def
      count_words_card distinct_positive_words distinct_negative_words Let_def)

lemma world_cup_verdict:
  "fallback_analysis l world_cup_article =
     JDict [(u ''sentiment'', JStr (u ''positive'')), (u ''category'', JStr (u ''Sports'')),
            (u ''reasoning'', JStr (u ''Keyword-based analysis''))]"
  by code_simp

theorem fallback_sentiment_rule_witness:
  "title world_cup_article = title (world_cup_article\<lparr>source := u ''Dawn (Pakistan)''\<rparr>)
   \<and> summary world_cup_article = summary (world_cup_article\<lparr>source := u ''Dawn (Pakistan)''\<rparr>)
   \<and> fallback_analysis lib_down (world_cup_article\<lparr>source := u ''Dawn (Pakistan)''\<rparr>) =
       JDict [(u ''sentiment'', JStr (u ''positive'')), (u ''category'', JStr (u ''Sports'')),
              (u ''reasoning'', JStr (u ''Keyword-based analysis''))]"
  using fallback_sentiment_rule
          [of lib_down world_cup_article "world_cup_article\<lparr>source := u ''Dawn (Pakistan)''\<rparr>"]
        world_cup_verdict [of lib_down]
  by simp

text \<open>
  C5. The category of the fallback verdict is the first category, in the order Politics,
  Economy, Sports, Technology, Defense, one of whose keywords occurs in the text, and
  \<open>Other\<close> when no keyword of any category occurs.
\<close>

theorem fallback_category_rule:
  "getitem_key (fallback_analysis l a) (u ''category'') =
     Inr (JStr (first_category (lower l (title a) @ u '' '' @ lower l (summary a))))"
  by (simp add: fallback_fields fallback_category_first analysis_text_def)

theorem fallback_category_rule_witness:
  "first_category (lower lib_down (title world_cup_article) @ u '' '' @
                   lower lib_down (summary world_cup_article))
     = u ''Sports''"
  using fallback_category_rule [of lib_down world_cup_article]
  by (simp add: world_cup_verdict)

text \<open>
  C8. The entry titled \<open>India wins cricket World Cup\<close> with the summary
  \<open>stadium celebrates historic win\<close> is kept by the Matcher, and the fallback verdict of
  its article has the sentiment \<open>positive\<close> and the category \<open>Sports\<close>.
\<close>

theorem world_cup_scenario:
  "fst (snd (scan_entries l (u ''The Guardian'') [world_cup_entry] [] world0))
     = [world_cup_article]
   \<and> getitem_key (fallback_analysis l world_cup_article) (u ''sentiment'')
       = Inr (JStr (u ''positive''))
   \<and> getitem_key (fallback_analysis l world_cup_article) (u ''category'')
       = Inr (JStr (u ''Sports''))"
proof -
  have "make_article (u ''The Guardian'') world_cup_entry = world_cup_article"
    by (simp add: make_article_def world_cup_entry_def world_cup_article_def get_def)
  then have "fst (snd (scan_entries l (u ''The Guardian'') [world_cup_entry] [] world0))
     = [world_cup_article]"
    unfolding scan_entries_single entry_titles using world_cup_title by simp
  then show ?thesis by (simp add: world_cup_verdict)
qed

lemma unwinding_facts:
  "str_in (u ''win'') (analysis_text l unwinding_article)
   \<and> \<not> re_search l (Bnd # map Lit (u ''win'') @ [Bnd]) (analysis_text l unwinding_article)
   \<and> fallback_sentiment (analysis_text l unwinding_article) = u ''positive''"
  by code_simp

lemma said_facts:
  "str_in (u ''ai'') (analysis_text l said_article)
   \<and> \<not> re_search l (Bnd # map Lit (u ''ai'') @ [Bnd]) (analysis_text l said_article)
   \<and> fallback_category (analysis_text l said_article) = u ''Technology''"
  by code_simp

lemma win_thrice: "count_words positive_words (u ''win win win'') = 1"
  by code_simp

lemma not_whole_word_ci:
  assumes "kw \<noteq> []"
    and "\<And>c. lit_matches_ci (hd kw) c \<Longrightarrow> is_word_char l c"
    and "\<And>c. lit_matches_ci (last kw) c \<Longrightarrow> is_word_char l c"
    and "\<not> re_search l (Bnd # map Lit kw @ [Bnd]) t"
  shows "\<not> whole_word_ci l kw t"
proof
  assume "whole_word_ci l kw t"
  then have "whole_word l (list_all2 lit_matches_ci kw) t"
    unfolding whole_word_ci_def whole_word_def using any_case_matches by blast
  then have "re_search l (Bnd # map Lit kw @ [Bnd]) t"
    using re_search_word [OF assms(1,2,3)] by simp
  then show False using assms(4) by simp
qed

lemma win_not_whole: "\<not> whole_word_ci l (u ''win'') (analysis_text l unwinding_article)"
proof (rule not_whole_word_ci)
  have k: "u ''win'' = [119, 105, 110]" by (simp add: u_def)
  show "u ''win'' \<noteq> []" by (simp add: k)
  show "is_word_char l c" if "lit_matches_ci (hd (u ''win'')) c" for c
    using that letter_match_word [of 119 c l] by (simp add: k ascii_lower_def)
  show "is_word_char l c" if "lit_matches_ci (last (u ''win'')) c" for c
    using that letter_match_word [of 110 c l] by (simp add: k ascii_lower_def)
  show "\<not> re_search l (Bnd # map Lit (u ''win'') @ [Bnd]) (analysis_text l unwinding_article)"
    using unwinding_facts by simp
qed

lemma ai_not_whole: "\<not> whole_word_ci l (u ''ai'') (analysis_text l said_article)"
proof (rule not_whole_word_ci)
  have k: "u ''ai'' = [97, 105]" by (simp add: u_def)
  show "u ''ai'' \<noteq> []" by (simp add: k)
  show "is_word_char l c" if "lit_matches_ci (hd (u ''ai'')) c" for c
    using that letter_match_word [of 97 c l] by (simp add: k ascii_lower_def)
  show "is_word_char l c" if "lit_matches_ci (last (u ''ai'')) c" for c
    using that letter_match_word [of 105 c l] by (simp add: k ascii_lower_def)
  show "\<not> re_search l (Bnd # map Lit (u ''ai'') @ [Bnd]) (analysis_text l said_article)"
    using said_facts by simp
qed

text \<open>
  C9. The keyword tests of the fallback are substring tests, and a listed word counts
  once however often it occurs: the count of a word list is the number of its entries
  that occur in the text, so \<open>win win win\<close> has the positive count 1; the title
  \<open>India unwinding\<close> holds \<open>win\<close> inside a longer word only and is positive; the
  title \<open>India said\<close> holds \<open>ai\<close> inside a longer word only and is in Technology.
\<close>

theorem fallback_counts_substrings:
  "count_words ws t = length (filter (\<lambda>word. occurs_in word t) ws)
   \<and> count_words positive_words (u ''win win win'') = 1
   \<and> occurs_in (u ''win'') (analysis_text l unwinding_article)
   \<and> \<not> whole_word_ci l (u ''win'') (analysis_text l unwinding_article)
   \<and> getitem_key (fallback_analysis l unwinding_article) (u ''sentiment'')
       = Inr (JStr (u ''positive''))
   \<and> occurs_in (u ''ai'') (analysis_text l said_article)
   \<and> \<not> whole_word_ci l (u ''ai'') (analysis_text l said_article)
   \<and> getitem_key (fallback_analysis l said_article) (u ''category'')
       = Inr (JStr (u ''Technology''))"
  using unwinding_facts [of l] said_facts [of l] win_thrice win_not_whole ai_not_whole
  by (simp add: count_words_length fallback_fields str_in_occurs)

lemma category_examples:
  "fallback_category (analysis_text l (empty_article\<lparr>title := u ''election''\<rparr>)) = u ''Politics''"
  "fallback_category (analysis_text l (empty_article\<lparr>title := u ''trade''\<rparr>)) = u ''Economy''"
  "fallback_category (analysis_text l (empty_article\<lparr>title := u ''cricket''\<rparr>)) = u ''Sports''"
  "fallback_category (analysis_text l (empty_article\<lparr>title := u ''startup''\<rparr>)) = u ''Technology''"
  "fallback_category (analysis_text l (empty_article\<lparr>title := u ''army''\<rparr>)) = u ''Defense''"
  "fallback_category (analysis_text l empty_article) = u ''Other''"
  by code_simp+

text \<open>
  C10. The categories that the fallback returns are exactly Politics, Economy, Sports,
  Technology, Defense and Other; Diplomacy is not among them.
\<close>

theorem fallback_category_range:
  "{c. \<exists>a. getitem_key (fallback_analysis l a) (u ''category'') = Inr (JStr c)} =
     {u ''Politics'', u ''Economy'', u ''Sports'', u ''Technology'', u ''Defense'', u ''Other''}
   \<and> (\<nexists>a. getitem_key (fallback_analysis l a) (u ''category'') = Inr (JStr (u ''Diplomacy'')))"
proof -
  have sub: "fallback_category (analysis_text l a)
      \<in> {u ''Politics'', u ''Economy'', u ''Sports'', u ''Technology'', u ''Defense'',
         u ''Other''}" for a
    by (rule fallback_category_cases)
  have "{c. \<exists>a. fallback_category (analysis_text l a) = c} =
     {u ''Politics'', u ''Economy'', u ''Sports'', u ''Technology'', u ''Defense'', u ''Other''}"
  proof
    show "{c. \<exists>a. fallback_category (analysis_text l a) = c}
        \<subseteq> {u ''Politics'', u ''Economy'', u ''Sports'', u ''Technology'', u ''Defense'',
           u ''Other''}"
      using sub by blast
    show "{u ''Politics'', u ''Economy'', u ''Sports'', u ''Technology'', u ''Defense'',
           u ''Other''}
        \<subseteq> {c. \<exists>a. fallback_category (analysis_text l a) = c}"
      using category_examples [of l] by blast
  qed
  moreover have "fallback_category (analysis_text l a) \<noteq> u ''Diplomacy''" for a
    using sub [of a] by auto
  ultimately show ?thesis by (simp add: fallback_fields)
qed

section \<open>The Classifier\<close>

lemma print_api_error:
  "print l (u ''API error: '' @ str_int n) w
     = Inr (w\<lparr>console := console w @ [u ''API error: '' @ str_int n]\<rparr>)"
proof (rule print_ascii)
  have "ascii (u ''API error: '')" by (simp add: ascii_def u_def)
  then show "ascii (u ''API error: '' @ str_int n)" using ascii_str_int by simp
qed

lemma print_analysis_error:
  "print l (u ''AI analysis error: '' @ exn_text l e) w
     = Inr (w\<lparr>console := console w @ [u ''AI analysis error: '' @ exn_text l e]\<rparr>)"
proof (rule print_ascii)
  have "ascii (u ''AI analysis error: '')" by (simp add: ascii_def u_def)
  then show "ascii (u ''AI analysis error: '' @ exn_text l e)" using ascii_exn_text by simp
qed

lemma analyze_with_ai_fst:
  "fst (analyze_with_ai l a w) =
     Inr (case fst (post l (Api_request (prompt a)) w) of
            Inl e \<Rightarrow> fallback_analysis l a
          | Inr r \<Rightarrow>
              if status_code r = 200
              then (case parse_reply l r of Inl e \<Rightarrow> fallback_analysis l a | Inr v \<Rightarrow> v)
              else fallback_analysis l a)"
  by (simp add: analyze_with_ai_def try_analyze_def post_def print_api_error
      print_analysis_error split: sum.splits)

lemma analyze_with_ai_failed:
  assumes "remote_failed l a w"
  shows "fst (analyze_with_ai l a w) = Inr (fallback_analysis l a)"
  using assms unfolding analyze_with_ai_fst remote_failed_def
  by (auto split: sum.splits simp: isl_def)

lemma analyze_with_ai_parsed:
  assumes "\<not> remote_failed l a w"
  shows "\<exists>r. fst (post l (Api_request (prompt a)) w) = Inr r \<and> status_code r = 200 \<and>
             fst (analyze_with_ai l a w) = parse_reply l r"
  using assms unfolding analyze_with_ai_fst remote_failed_def
  by (auto split: sum.splits simp: isl_def)

lemma mixed_parsed:
  "\<not> remote_failed lib_mixed world_cup_article world0
   \<and> parse_reply lib_mixed mixed_response = Inr mixed_verdict"
  by code_simp

lemma mixed_outside: "\<not> in_enumerations mixed_verdict"
  by code_simp

lemma mixed_post:
  "fst (post lib_mixed (Api_request (prompt world_cup_article)) world0) = Inr mixed_response"
  by (simp add: post_def lib_mixed_def)

lemma mixed_run:
  "fst (analyze_with_ai lib_mixed world_cup_article world0) = Inr mixed_verdict"
  using mixed_parsed by (simp add: analyze_with_ai_fst mixed_post mixed_response_def)

lemma failed_500: "remote_failed lib_500 empty_article world0"
  by (simp add: remote_failed_def post_def lib_500_def)



text \<open>
  C1, as the claim states it, fails: the service answers with status 200 and a JSON
  object whose sentiment is \<open>mixed\<close> and whose category is \<open>Weather\<close>; the Classifier
  returns that object.
\<close>

theorem analyze_with_ai_unchecked_reply:
  "fst (analyze_with_ai lib_mixed world_cup_article world0) = Inr mixed_verdict
   \<and> \<not> in_enumerations mixed_verdict"
  using mixed_run mixed_outside by simp

text \<open>
  C1, amended. When the remote call fails (a transport error, a status other than 200,
  or a reply that cannot be turned into a value), the Classifier returns the fallback
  verdict, whose sentiment and category are drawn from the enumerations. When the remote
  call succeeds, the Classifier returns the value parsed from the reply as it is.
\<close>

theorem analyze_with_ai_verdict:
  "(remote_failed l a w \<longrightarrow>
      fst (analyze_with_ai l a w) = Inr (fallback_analysis l a)
      \<and> in_enumerations (fallback_analysis l a))
   \<and> (\<not> remote_failed l a w \<longrightarrow>
        (\<exists>r. fst (post l (Api_request (prompt a)) w) = Inr r \<and> status_code r = 200 \<and>
             fst (analyze_with_ai l a w) = parse_reply l r))"
  using analyze_with_ai_failed analyze_with_ai_parsed fallback_in_enumerations by blast

theorem analyze_with_ai_verdict_witness:
  "remote_failed lib_500 empty_article world0
   \<and> fst (analyze_with_ai lib_500 empty_article world0)
       = Inr (fallback_analysis lib_500 empty_article)
   \<and> in_enumerations (fallback_analysis lib_500 empty_article)
   \<and> \<not> remote_failed lib_mixed world_cup_article world0
   \<and> fst (analyze_with_ai lib_mixed world_cup_article world0) = Inr mixed_verdict"
  using analyze_with_ai_verdict [of lib_500 empty_article world0]
        analyze_with_ai_verdict [of lib_mixed world_cup_article world0]
        failed_500 mixed_parsed mixed_post
  by auto



section \<open>The Renderer\<close>

lemma format_item_verdict:
  assumes "is_verdict (item_analysis i)"
  shows "\<exists>em. format_item l i = Inr em"
proof -
  obtain d where d: "item_analysis i = JDict d"
    using assms by (cases "item_analysis i") (simp_all add: is_verdict_def is_str_field_def)
  obtain s where s: "map_of d (u ''sentiment'') = Some (JStr s)"
    using assms d
    by (auto simp: is_verdict_def is_str_field_def split: option.splits sum.splits json.splits)
  obtain c where c: "map_of d (u ''category'') = Some (JStr c)"
    using assms d
    by (auto simp: is_verdict_def is_str_field_def split: option.splits sum.splits json.splits)
  obtain r where r: "map_of d (u ''reasoning'') = Some (JStr r)"
    using assms d
    by (auto simp: is_verdict_def is_str_field_def split: option.splits sum.splits json.splits)
  show ?thesis
    by (simp add: format_item_def d s c r get_emoji_def)
qed

lemma format_items_verdicts:
  assumes "list_all (\<lambda>i. is_verdict (item_analysis i)) items"
  shows "\<exists>bs. format_items l items es = Inr (es @ bs) \<and> map Inr bs = map (format_item l) items"
  using assms
proof (induction items arbitrary: es)
  case Nil
  then show ?case by simp
next
  case (Cons i items)
  obtain em where em: "format_item l i = Inr em"
    using Cons.prems format_item_verdict by auto
  obtain bs where bs: "format_items l items (es @ [em]) = Inr ((es @ [em]) @ bs)"
      "map Inr bs = map (format_item l) items"
    using Cons.IH [of "es @ [em]"] Cons.prems by auto
  have "format_items l (i # items) es = Inr (es @ (em # bs))"
    using em bs(1) by simp
  moreover have "map Inr (em # bs) = map (format_item l) (i # items)"
    using em bs(2) by simp
  ultimately show ?case by blast
qed

lemma two_items_verdicts: "list_all (\<lambda>i. is_verdict (item_analysis i)) two_items"
  by (simp add: two_items_def is_verdict_def is_str_field_def fallback_fields mixed_verdict_def)

text \<open>
  C6. On the empty list the Renderer returns a payload with exactly one block, whose
  description is the fixed empty-state text. On a list of \<open>N \<ge> 1\<close> items, each with a
  verdict of the data model, it returns a payload with \<open>N + 1\<close> blocks: the header block,
  then the block of each item, in the order of the list.
\<close>

theorem format_discord_message_blocks:
  "(\<exists>p. format_discord_message l [] = Inr p \<and> embeds p = [empty_embed l]
        \<and> embed_description (empty_embed l)
            = Some (u ''No articles mentioning India found in the last check.''))
   \<and> (items \<noteq> [] \<and> list_all (\<lambda>i. is_verdict (item_analysis i)) items \<longrightarrow>
        (\<exists>p bs. format_discord_message l items = Inr p
                \<and> embeds p = header_embed l (length items) # bs
                \<and> length (embeds p) = length items + 1
                \<and> map Inr bs = map (format_item l) items))"
proof -
  have first: "\<exists>p. format_discord_message l [] = Inr p \<and> embeds p = [empty_embed l]
        \<and> embed_description (empty_embed l)
            = Some (u ''No articles mentioning India found in the last check.'')"
    by (simp add: format_discord_message_def empty_embed_def)
  have second: "\<exists>p bs. format_discord_message l items = Inr p
                \<and> embeds p = header_embed l (length items) # bs
                \<and> length (embeds p) = length items + 1
                \<and> map Inr bs = map (format_item l) items"
    if ne: "items \<noteq> []" and vs: "list_all (\<lambda>i. is_verdict (item_analysis i)) items"
  proof -
    obtain bs where bs:
      "format_items l items [header_embed l (length items)]
         = Inr ([header_embed l (length items)] @ bs)"
      "map Inr bs = map (format_item l) items"
      using format_items_verdicts [OF vs] by blast
    have "length bs = length items"
      using bs(2) map_eq_imp_length_eq by blast
    then show ?thesis
      using ne bs by (simp add: format_discord_message_def)
  qed
  show ?thesis using first second by blast
qed

theorem format_discord_message_blocks_witness:
  "two_items \<noteq> [] \<and> list_all (\<lambda>i. is_verdict (item_analysis i)) two_items
   \<and> (\<exists>p. format_discord_message lib_500 two_items = Inr p \<and> length (embeds p) = 3)"
proof -
  have ne: "two_items \<noteq> []" by (simp add: two_items_def)
  have "length two_items = 2" by (simp add: two_items_def)
  then show ?thesis
    using format_discord_message_blocks [of lib_500 two_items] ne two_items_verdicts
    by auto
qed

section \<open>The Publisher\<close>




end
